theory Spec2Isabelle
  imports Complex_Main
begin

section \<open>Grid search of ARIMA orders and the thread-count timing sweep\<close>

text \<open>
  The two notebooks are linear Python 2.7 scripts around library calls. The embedding
  keeps the scripts' own control flow and data flow and takes the library calls as
  parameters:
  \<^item> \<open>ARIMA(history, order).fit(disp=0).forecast()[0]\<close> is a function from the history
    and the order to a forecast or an exception;
  \<^item> \<open>astype('float32')\<close> is an element conversion applied to a fresh copy;
  \<^item> \<open>time.time()\<close> is a sequence of clock readings.
  Observations and forecasts are finite floating-point numbers; a finite float denotes
  a real number and Python compares two finite floats as it compares the reals they
  denote, so they are values of type \<open>real\<close>. Two floats of the scripts can be infinite:
  \<open>float("inf")\<close>, the initial best score, and a mean squared error whose squares leave
  the range of the doubles. They are values of type \<open>pyfloat\<close>.
\<close>

subsection \<open>Exceptions and values\<close>

datatype exn = FitError | ValueError | TypeError | KeyboardInterrupt

type_synonym order = "int \<times> int \<times> int"

text \<open>The library call of lines 87 to 89: fit on the history, forecast one step.\<close>

type_synonym forecaster = "real list \<Rightarrow> order \<Rightarrow> exn + real"

datatype pyfloat = Finite real | PosInf

text \<open>\<open>mse < best_score\<close> on floats: infinity is below nothing, itself included.\<close>

fun float_less :: "pyfloat \<Rightarrow> pyfloat \<Rightarrow> bool" where
  "float_less (Finite x) (Finite y) = (x < y)"
| "float_less (Finite x) PosInf = True"
| "float_less PosInf y = False"

subsection \<open>The split point: \<open>int(len(X) * 0.66)\<close> in binary64 arithmetic\<close>

text \<open>
  The literal \<open>0.66\<close> is the double \<open>0x1.51eb851eb851fp-1\<close>, that is
  \<open>5944751508129055 / 2^53\<close>, slightly above 66/100. A positive double in the normal
  range is \<open>m * 2^e\<close> with \<open>m < 2^53\<close>; rounding a natural number \<open>P\<close> to 53 significant
  bits, ties to even, is \<open>round53\<close>. \<open>len(X)\<close> is converted to a double (exactly below
  \<open>2^53\<close>), the product is rounded once, and \<open>int\<close> truncates. All quantities are kept as
  integers scaled by \<open>2^53\<close>.
\<close>

definition c066 :: nat where
  "c066 = 5944751508129055"

definition round_half_even :: "nat \<Rightarrow> nat \<Rightarrow> nat" where
  "round_half_even P s =
     (let q = P div 2 ^ s; r = P mod 2 ^ s
      in if 2 ^ s < 2 * r \<or> (2 * r = 2 ^ s \<and> odd q) then q + 1 else q)"

text \<open>The number of low bits that do not fit into a 53-bit significand.\<close>

fun excess_bits :: "nat \<Rightarrow> nat" where
  "excess_bits P = (if P < 2 ^ 53 then 0 else Suc (excess_bits (P div 2)))"

declare excess_bits.simps [simp del]

definition round53 :: "nat \<Rightarrow> nat" where
  "round53 P = (let s = excess_bits P in round_half_even P s * 2 ^ s)"

definition float_mul_066 :: "nat \<Rightarrow> nat" where
  "float_mul_066 n = round53 (round53 n * c066)"

definition train_size :: "nat \<Rightarrow> nat" where
  "train_size n = float_mul_066 n div 2 ^ 53"

subsection \<open>The evaluator \<open>evaluate_arima_model\<close>\<close>

text \<open>
  A real number at or beyond \<open>2^1024 - 2^970\<close> rounds to infinity in binary64; the largest
  double is \<open>2^1024 - 2^971\<close>.
\<close>

definition overflow_threshold :: real where
  "overflow_threshold = 2 ^ 1024 - 2 ^ 970"

text \<open>
  \<open>sklearn.metrics.mean_squared_error\<close>: the mean of the squared differences; it raises
  \<open>ValueError\<close> on inputs of different lengths and on empty inputs. The inputs are
  finite, but the sum of the squares can leave the range of the doubles, and then the
  sum and the mean are infinite. Rounding inside the range is not modelled.
\<close>

definition mean_squared_error :: "real list \<Rightarrow> real list \<Rightarrow> exn + pyfloat" where
  "mean_squared_error y_true y_pred =
     (if length y_true \<noteq> length y_pred \<or> y_true = [] then Inl ValueError
      else (let total = (\<Sum>(a, b) \<leftarrow> zip y_true y_pred. (a - b)\<^sup>2)
            in if total < overflow_threshold then Inr (Finite (total / real (length y_true)))
               else Inr PosInf))"

text \<open>
  The loop \<open>for t in range(len(test))\<close> of lines 86 to 91, over the list of indices, with
  the two lists it appends to. An exception of the library call leaves the loop.
\<close>

fun forecast_loop ::
  "forecaster \<Rightarrow> order \<Rightarrow> real list \<Rightarrow> nat list \<Rightarrow> real list \<times> real list
    \<Rightarrow> exn + real list \<times> real list" where
  "forecast_loop fc arima_order test [] (history, predictions) = Inr (history, predictions)"
| "forecast_loop fc arima_order test (t # ts) (history, predictions) =
     (case fc history arima_order of
        Inl e \<Rightarrow> Inl e
      | Inr yhat \<Rightarrow>
          forecast_loop fc arima_order test ts (history @ [test ! t], predictions @ [yhat]))"

text \<open>Lines 81 and 82: the split into the training prefix and the held-out rest.\<close>

definition split_series :: "real list \<Rightarrow> real list \<times> real list" where
  "split_series X = (let train_sz = train_size (length X) in (take train_sz X, drop train_sz X))"

text \<open>Lines 83 to 91: the copy of the training prefix, the loop.\<close>

definition walk_forward :: "forecaster \<Rightarrow> real list \<Rightarrow> order \<Rightarrow> exn + real list \<times> real list" where
  "walk_forward fc X arima_order =
     (case split_series X of
        (train, test) \<Rightarrow>
          (let history = train
           in forecast_loop fc arima_order test [0..<length test] (history, [])))"

definition evaluate_arima_model :: "forecaster \<Rightarrow> real list \<Rightarrow> order \<Rightarrow> exn + pyfloat" where
  "evaluate_arima_model fc X arima_order =
     (case walk_forward fc X arima_order of
        Inl e \<Rightarrow> Inl e
      | Inr (history, predictions) \<Rightarrow>
          mean_squared_error (snd (split_series X)) predictions)"

subsection \<open>Formatting with the \<open>%\<close> operator\<close>

definition digit :: "nat \<Rightarrow> char" where
  "digit n = ''0123456789'' ! n"

fun decimal :: "nat \<Rightarrow> string" where
  "decimal n = (if n < 10 then [digit n] else decimal (n div 10) @ [digit (n mod 10)])"

declare decimal.simps [simp del]

definition str_int :: "int \<Rightarrow> string" where
  "str_int i = (if i < 0 then ''-'' @ decimal (nat (- i)) else decimal (nat i))"

text \<open>\<open>%s\<close> applies \<open>str\<close>: to \<open>None\<close>, or to a tuple of three integers.\<close>

fun str_cfg :: "order option \<Rightarrow> string" where
  "str_cfg None = ''None''"
| "str_cfg (Some (p, d, q)) =
     ''('' @ str_int p @ '', '' @ str_int d @ '', '' @ str_int q @ '')''"

definition nearest_even :: "real \<Rightarrow> int" where
  "nearest_even x =
     (let f = \<lfloor>x\<rfloor>; d = x - of_int f
      in if d < 1 / 2 then f else if 1 / 2 < d then f + 1 else if even f then f else f + 1)"

text \<open>\<open>%.3f\<close>: three decimals, correctly rounded; an infinite float prints as \<open>inf\<close>.\<close>

fun fmt_3f :: "pyfloat \<Rightarrow> string" where
  "fmt_3f PosInf = ''inf''"
| "fmt_3f (Finite r) =
     (let k = nat (nearest_even (\<bar>r\<bar> * 1000))
      in (if r < 0 then ''-'' else []) @ decimal (k div 1000) @ ''.''
           @ [digit (k div 100 mod 10), digit (k div 10 mod 10), digit (k mod 10)])"

subsection \<open>The grid-search driver \<open>evaluate_models\<close>\<close>

record search_state =
  best_score :: pyfloat
  best_cfg :: "order option"
  stdout :: "string list"

text \<open>
  Lines 153 to 160, the body of the innermost loop. The bare \<open>except\<close> catches whatever
  the evaluation raises and continues with the next combination.
\<close>

definition eval_line :: "order \<Rightarrow> pyfloat \<Rightarrow> string" where
  "eval_line ord mse = ''ARIMA'' @ str_cfg (Some ord) @ '' MSE='' @ fmt_3f mse"

definition try_order :: "(order \<Rightarrow> exn + pyfloat) \<Rightarrow> order \<Rightarrow> search_state \<Rightarrow> search_state" where
  "try_order ev ord st =
     (case ev ord of
        Inl e \<Rightarrow> st
      | Inr mse \<Rightarrow>
          (let st' = (if float_less mse (best_score st)
                      then st\<lparr>best_score := mse, best_cfg := Some ord\<rparr> else st)
           in st'\<lparr>stdout := stdout st' @ [eval_line ord mse]\<rparr>))"

fun loop_q :: "(order \<Rightarrow> exn + pyfloat) \<Rightarrow> int \<Rightarrow> int \<Rightarrow> int list \<Rightarrow> search_state \<Rightarrow> search_state" where
  "loop_q ev p d [] st = st"
| "loop_q ev p d (q # qs) st = loop_q ev p d qs (try_order ev (p, d, q) st)"

fun loop_d :: "(order \<Rightarrow> exn + pyfloat) \<Rightarrow> int \<Rightarrow> int list \<Rightarrow> int list \<Rightarrow> search_state \<Rightarrow> search_state" where
  "loop_d ev p [] q_values st = st"
| "loop_d ev p (d # ds) q_values st = loop_d ev p ds q_values (loop_q ev p d q_values st)"

fun loop_p :: "(order \<Rightarrow> exn + pyfloat) \<Rightarrow> int list \<Rightarrow> int list \<Rightarrow> int list \<Rightarrow> search_state \<Rightarrow> search_state" where
  "loop_p ev [] d_values q_values st = st"
| "loop_p ev (p # ps) d_values q_values st =
     loop_p ev ps d_values q_values (loop_d ev p d_values q_values st)"

definition grid_search ::
  "(order \<Rightarrow> exn + pyfloat) \<Rightarrow> int list \<Rightarrow> int list \<Rightarrow> int list \<Rightarrow> search_state" where
  "grid_search ev p_values d_values q_values =
     loop_p ev p_values d_values q_values \<lparr>best_score = PosInf, best_cfg = None, stdout = []\<rparr>"

definition summary_line :: "search_state \<Rightarrow> string" where
  "summary_line st = ''Best ARIMA'' @ str_cfg (best_cfg st) @ '' MSE='' @ fmt_3f (best_score st)"

text \<open>
  Lines 147 to 161. \<open>f32\<close> is the element conversion of \<open>astype('float32')\<close>. The function
  returns nothing; what it reports is what it prints, so the result is the final state
  with the printed lines.
\<close>

definition evaluate_models ::
  "(real \<Rightarrow> real) \<Rightarrow> forecaster \<Rightarrow> real list \<Rightarrow> int list \<Rightarrow> int list \<Rightarrow> int list \<Rightarrow> search_state" where
  "evaluate_models f32 fc dataset p_values d_values q_values =
     (let dataset' = map f32 dataset;
          st = grid_search (evaluate_arima_model fc dataset') p_values d_values q_values
      in st\<lparr>stdout := stdout st @ [summary_line st]\<rparr>)"

subsection \<open>The two functions over a store of arrays and lists\<close>

text \<open>
  In the program the series is a NumPy array: \<open>X[0:train_size]\<close> and \<open>X[train_size:]\<close> are
  views that share its buffer, \<open>[x for x in train]\<close> and \<open>list()\<close> create new lists,
  \<open>append\<close> changes a list in place, and \<open>astype\<close> creates a new array. The store is the
  sequence of all buffers and lists created so far; an address is a position in it, and
  a new object is put at the end.
\<close>

type_synonym addr = nat

type_synonym store = "real list list"

record ndarray =
  base :: addr
  start :: nat
  stop :: nat

definition alloc :: "store \<Rightarrow> real list \<Rightarrow> addr \<times> store" where
  "alloc h xs = (length h, h @ [xs])"

definition list_append :: "store \<Rightarrow> addr \<Rightarrow> real \<Rightarrow> store" where
  "list_append h a x = h[a := h ! a @ [x]]"

definition array_len :: "ndarray \<Rightarrow> nat" where
  "array_len v = stop v - start v"

definition array_get :: "store \<Rightarrow> ndarray \<Rightarrow> nat \<Rightarrow> real" where
  "array_get h v i = h ! base v ! (start v + i)"

definition array_read :: "store \<Rightarrow> ndarray \<Rightarrow> real list" where
  "array_read h v = take (array_len v) (drop (start v) (h ! base v))"

definition slice :: "ndarray \<Rightarrow> nat \<Rightarrow> nat \<Rightarrow> ndarray" where
  "slice v i j =
     (let n = array_len v; i' = min i n; j' = max i' (min j n)
      in v\<lparr>start := start v + i', stop := start v + j'\<rparr>)"

definition valid_array :: "store \<Rightarrow> ndarray \<Rightarrow> bool" where
  "valid_array h v \<longleftrightarrow> base v < length h \<and> start v \<le> stop v \<and> stop v \<le> length (h ! base v)"

text \<open>Lines 86 to 91 over the store; \<open>history\<close> and \<open>predictions\<close> are addresses of lists.\<close>

fun forecast_loop_st ::
  "forecaster \<Rightarrow> order \<Rightarrow> ndarray \<Rightarrow> addr \<Rightarrow> addr \<Rightarrow> nat list \<Rightarrow> store \<Rightarrow> exn option \<times> store" where
  "forecast_loop_st fc arima_order test history predictions [] h = (None, h)"
| "forecast_loop_st fc arima_order test history predictions (t # ts) h =
     (case fc (h ! history) arima_order of
        Inl e \<Rightarrow> (Some e, h)
      | Inr yhat \<Rightarrow>
          (let h1 = list_append h predictions yhat;
               h2 = list_append h1 history (array_get h1 test t)
           in forecast_loop_st fc arima_order test history predictions ts h2))"

text \<open>Lines 81 to 91 over the store. The result names the two lists the loop has filled.\<close>

definition walk_forward_st ::
  "forecaster \<Rightarrow> store \<Rightarrow> ndarray \<Rightarrow> order \<Rightarrow> (exn + addr \<times> addr) \<times> store" where
  "walk_forward_st fc h X arima_order =
     (let train_sz = train_size (array_len X);
          train = slice X 0 train_sz;
          test = slice X train_sz (array_len X);
          (history, h1) = alloc h (array_read h train);
          (predictions, h2) = alloc h1 []
      in case forecast_loop_st fc arima_order test history predictions [0..<array_len test] h2 of
           (Some e, h3) \<Rightarrow> (Inl e, h3)
         | (None, h3) \<Rightarrow> (Inr (history, predictions), h3))"

definition evaluate_arima_model_st ::
  "forecaster \<Rightarrow> store \<Rightarrow> ndarray \<Rightarrow> order \<Rightarrow> (exn + pyfloat) \<times> store" where
  "evaluate_arima_model_st fc h X arima_order =
     (case walk_forward_st fc h X arima_order of
        (Inl e, h') \<Rightarrow> (Inl e, h')
      | (Inr (history, predictions), h') \<Rightarrow>
          (mean_squared_error
             (array_read h' (slice X (train_size (array_len X)) (array_len X)))
             (h' ! predictions), h'))"

text \<open>The prediction list a run of the loop leaves behind, or its exception.\<close>

definition predictions_of :: "(exn + addr \<times> addr) \<times> store \<Rightarrow> exn + real list" where
  "predictions_of r =
     (case r of (Inl e, h) \<Rightarrow> Inl e | (Inr (history, predictions), h) \<Rightarrow> Inr (h ! predictions))"

text \<open>Lines 153 to 160 over the store: the evaluation may allocate, the handler keeps the store.\<close>

definition try_order_st ::
  "forecaster \<Rightarrow> ndarray \<Rightarrow> order \<Rightarrow> search_state \<times> store \<Rightarrow> search_state \<times> store" where
  "try_order_st fc dataset ord sh =
     (case sh of (st, h) \<Rightarrow>
        (case evaluate_arima_model_st fc h dataset ord of
           (Inl e, h') \<Rightarrow> (st, h')
         | (Inr mse, h') \<Rightarrow>
             (let st' = (if float_less mse (best_score st)
                         then st\<lparr>best_score := mse, best_cfg := Some ord\<rparr> else st)
              in (st'\<lparr>stdout := stdout st' @ [eval_line ord mse]\<rparr>, h'))))"

fun loop_q_st ::
  "forecaster \<Rightarrow> ndarray \<Rightarrow> int \<Rightarrow> int \<Rightarrow> int list \<Rightarrow> search_state \<times> store
    \<Rightarrow> search_state \<times> store" where
  "loop_q_st fc dataset p d [] sh = sh"
| "loop_q_st fc dataset p d (q # qs) sh =
     loop_q_st fc dataset p d qs (try_order_st fc dataset (p, d, q) sh)"

fun loop_d_st ::
  "forecaster \<Rightarrow> ndarray \<Rightarrow> int \<Rightarrow> int list \<Rightarrow> int list \<Rightarrow> search_state \<times> store
    \<Rightarrow> search_state \<times> store" where
  "loop_d_st fc dataset p [] q_values sh = sh"
| "loop_d_st fc dataset p (d # ds) q_values sh =
     loop_d_st fc dataset p ds q_values (loop_q_st fc dataset p d q_values sh)"

fun loop_p_st ::
  "forecaster \<Rightarrow> ndarray \<Rightarrow> int list \<Rightarrow> int list \<Rightarrow> int list \<Rightarrow> search_state \<times> store
    \<Rightarrow> search_state \<times> store" where
  "loop_p_st fc dataset [] d_values q_values sh = sh"
| "loop_p_st fc dataset (p # ps) d_values q_values sh =
     loop_p_st fc dataset ps d_values q_values (loop_d_st fc dataset p d_values q_values sh)"

text \<open>
  Lines 147 to 161 over the store. \<open>astype\<close> allocates a new array; the local name
  \<open>dataset\<close> is bound to it from then on.
\<close>

definition astype_float32 :: "(real \<Rightarrow> real) \<Rightarrow> store \<Rightarrow> ndarray \<Rightarrow> ndarray \<times> store" where
  "astype_float32 f32 h v =
     (case alloc h (map f32 (array_read h v)) of
        (a, h') \<Rightarrow> (\<lparr>base = a, start = 0, stop = array_len v\<rparr>, h'))"

definition evaluate_models_st ::
  "(real \<Rightarrow> real) \<Rightarrow> forecaster \<Rightarrow> store \<Rightarrow> ndarray \<Rightarrow> int list \<Rightarrow> int list \<Rightarrow> int list
    \<Rightarrow> search_state \<times> store" where
  "evaluate_models_st f32 fc h dataset p_values d_values q_values =
     (case astype_float32 f32 h dataset of
        (dataset', h1) \<Rightarrow>
          (case loop_p_st fc dataset' p_values d_values q_values
                  (\<lparr>best_score = PosInf, best_cfg = None, stdout = []\<rparr>, h1) of
             (st, h2) \<Rightarrow> (st\<lparr>stdout := stdout st @ [summary_line st]\<rparr>, h2)))"

text \<open>Stores for worked examples: the series alone, and the series inside a longer buffer.\<close>

definition one_array :: store where
  "one_array = [[1, 2, 3, 4, 5, 6]]"

definition whole :: ndarray where
  "whole = \<lparr>base = 0, start = 0, stop = 6\<rparr>"

definition two_arrays :: store where
  "two_arrays = [[9, 9], [0, 1, 2, 3, 4, 5, 6, 7]]"

definition middle :: ndarray where
  "middle = \<lparr>base = 1, start = 1, stop = 7\<rparr>"

subsection \<open>The thread-count timing sweep\<close>

text \<open>
  Lines 675 to 684. \<open>time.time()\<close> is the wall clock: \<open>clock k\<close> is its \<open>k\<close>-th reading
  during the run. \<open>XGBClassifier(nthread=n).fit(X, y)\<close> returns or raises; the script has
  no handler, so an exception ends it. \<open>results\<close> is a Python list and can hold any
  value; \<open>print(n, elapsed)\<close> prints the pair.
\<close>

datatype pyval = PyInt int | PyFloat real | PyTuple "pyval list"

record sweep_state =
  ticks :: nat
  results :: "pyval list"
  shown :: "pyval list"

fun sweep_loop ::
  "(nat \<Rightarrow> real) \<Rightarrow> (int \<Rightarrow> exn option) \<Rightarrow> int list \<Rightarrow> sweep_state \<Rightarrow> exn + sweep_state" where
  "sweep_loop clock fit [] s = Inr s"
| "sweep_loop clock fit (n # ns) s =
     (let start = clock (ticks s)
      in case fit n of
           Some e \<Rightarrow> Inl e
         | None \<Rightarrow>
             (let elapsed = clock (ticks s + 1) - start
              in sweep_loop clock fit ns
                   \<lparr>ticks = ticks s + 2,
                    results = results s @ [PyFloat elapsed],
                    shown = shown s @ [PyTuple [PyInt n, PyFloat elapsed]]\<rparr>))"

definition thread_sweep :: "(nat \<Rightarrow> real) \<Rightarrow> (int \<Rightarrow> exn option) \<Rightarrow> int list \<Rightarrow> exn + sweep_state" where
  "thread_sweep clock fit num_threads =
     sweep_loop clock fit num_threads \<lparr>ticks = 0, results = [], shown = []\<rparr>"

text \<open>The duration measured around the \<open>i\<close>-th fit.\<close>

definition elapsed_at :: "(nat \<Rightarrow> real) \<Rightarrow> nat \<Rightarrow> real" where
  "elapsed_at clock i = clock (2 * i + 1) - clock (2 * i)"

text \<open>Inputs for worked examples: a fit that returns, a clock that advances, one set back.\<close>

definition always_fits :: "int \<Rightarrow> exn option" where
  "always_fits n = None"

definition steady_clock :: "nat \<Rightarrow> real" where
  "steady_clock k = 5 * real k"

definition clock_set_back :: "nat \<Rightarrow> real" where
  "clock_set_back k = (if k = 0 then 10 else 5)"

subsection \<open>What the specification says, for comparison\<close>

text \<open>
  All forecasts succeed and are collected in order, or the first exception is the result.
\<close>

fun collect :: "(exn + 'a) list \<Rightarrow> exn + 'a list" where
  "collect [] = Inr []"
| "collect (r # rs) =
     (case r of
        Inl e \<Rightarrow> Inl e
      | Inr y \<Rightarrow> (case collect rs of Inl e \<Rightarrow> Inl e | Inr ys \<Rightarrow> Inr (y # ys)))"

text \<open>
  One single-step forecast per held-out observation, each from a model fitted on all
  observations before it: the training prefix and the held-out observations already
  consumed.
\<close>

definition rolling_forecasts :: "forecaster \<Rightarrow> real list \<Rightarrow> order \<Rightarrow> exn + real list" where
  "rolling_forecasts fc X arima_order =
     (let n0 = train_size (length X)
      in collect (map (\<lambda>t. fc (take (n0 + t) X) arima_order) [0..<length X - n0]))"

text \<open>The Cartesian product, dimension 1 outermost, dimension 3 innermost.\<close>

definition grid :: "int list \<Rightarrow> int list \<Rightarrow> int list \<Rightarrow> order list" where
  "grid p_values d_values q_values = [(p, d, q). p \<leftarrow> p_values, d \<leftarrow> d_values, q \<leftarrow> q_values]"




text \<open>
  Skipping: the configurations whose evaluation returned, each with its error, in
  enumeration order; and what the driver does with one of them.
\<close>

fun successes :: "(order \<Rightarrow> exn + pyfloat) \<Rightarrow> order list \<Rightarrow> (order \<times> pyfloat) list" where
  "successes ev [] = []"
| "successes ev (c # cs) =
     (case ev c of Inl e \<Rightarrow> successes ev cs | Inr m \<Rightarrow> (c, m) # successes ev cs)"

definition keep_best :: "search_state \<Rightarrow> order \<times> pyfloat \<Rightarrow> search_state" where
  "keep_best st cm =
     (case cm of (c, m) \<Rightarrow>
        if float_less m (best_score st)
        then \<lparr>best_score = m, best_cfg = Some c, stdout = stdout st @ [eval_line c m]\<rparr>
        else st\<lparr>stdout := stdout st @ [eval_line c m]\<rparr>)"

subsection \<open>A small forecaster for worked examples\<close>

text \<open>
  The last observation plus \<open>p + d + q\<close>; it cannot be fitted on an empty history, nor
  with \<open>p = 2\<close>.
\<close>

definition naive :: forecaster where
  "naive history ord =
     (case ord of (p, d, q) \<Rightarrow>
        if history = [] \<or> p = 2 then Inl FitError
        else Inr (last history + real_of_int (p + d + q)))"



subsection \<open>The documented run on the shampoo sales\<close>

text \<open>
  The notebook keeps the output of its run on the 36 monthly sales figures: one line for
  each of the 21 configurations that could be fitted, with its error. The table holds
  these printed errors; a configuration without a line failed.
\<close>

definition shampoo_run :: "(order \<times> real) list" where
  "shampoo_run =
     [((0, 0, 0), 52425.268), ((0, 0, 1), 38145.259), ((0, 0, 2), 23989.598),
      ((0, 1, 0), 18003.173), ((0, 1, 1), 9558.166), ((0, 2, 0), 67339.808),
      ((0, 2, 1), 18321.891), ((1, 0, 0), 23112.826), ((1, 1, 0), 7121.367),
      ((1, 1, 1), 7003.683), ((1, 2, 0), 18608.016), ((2, 1, 0), 5689.931),
      ((2, 1, 1), 7759.704), ((2, 2, 0), 9860.940), ((4, 1, 0), 6649.594),
      ((4, 1, 1), 6796.295), ((4, 2, 0), 7596.329), ((4, 2, 1), 4694.872),
      ((6, 1, 0), 6810.082), ((6, 2, 0), 6261.123), ((8, 1, 0), 6579.580)]"

definition recorded :: "(order \<times> real) list \<Rightarrow> order \<Rightarrow> exn + pyfloat" where
  "recorded tbl ord =
     (case map_of tbl ord of None \<Rightarrow> Inl FitError | Some m \<Rightarrow> Inr (Finite m))"

section \<open>The split point\<close>

lemma excess_bits_upper: "P < 2 ^ 53 * 2 ^ excess_bits P"
proof (induction P rule: excess_bits.induct)
  case (1 P)
  show ?case
  proof (cases "P < 2 ^ 53")
    case True
    then show ?thesis by (simp add: excess_bits.simps)
  next
    case False
    with 1 have "P div 2 < 2 ^ 53 * 2 ^ excess_bits (P div 2)" by simp
    then have "P < 2 * (2 ^ 53 * 2 ^ excess_bits (P div 2))" by linarith
    with False show ?thesis by (simp add: excess_bits.simps[of P])
  qed
qed

lemma excess_bits_lower: "0 < excess_bits P \<Longrightarrow> 2 ^ 52 * 2 ^ excess_bits P \<le> P"
proof (induction P rule: excess_bits.induct)
  case (1 P)
  show ?case
  proof (cases "P < 2 ^ 53")
    case True
    with 1(2) show ?thesis by (simp add: excess_bits.simps[of P])
  next
    case False
    show ?thesis
    proof (cases "0 < excess_bits (P div 2)")
      case True
      with 1(1) False have "2 ^ 52 * 2 ^ excess_bits (P div 2) \<le> P div 2" by simp
      then have "2 * (2 ^ 52 * 2 ^ excess_bits (P div 2)) \<le> P" by linarith
      with False show ?thesis by (simp add: excess_bits.simps[of P])
    next
      case z: False
      with False show ?thesis by (simp add: excess_bits.simps[of P])
    qed
  qed
qed

lemma excess_bits_small: "P < 2 ^ 53 \<Longrightarrow> excess_bits P = 0"
  by (simp add: excess_bits.simps)

lemma round53_exact: "P < 2 ^ 53 \<Longrightarrow> round53 P = P"
  by (simp add: round53_def excess_bits_small round_half_even_def)

lemma round_half_even_lower: "P div 2 ^ s \<le> round_half_even P s"
  by (simp add: round_half_even_def Let_def)

lemma round_half_even_upper: "round_half_even P s \<le> P div 2 ^ s + 1"
  by (simp add: round_half_even_def Let_def)

lemma round53_upper: "round53 P \<le> P + 2 ^ excess_bits P"
proof -
  let ?s = "excess_bits P"
  have "round53 P \<le> (P div 2 ^ ?s + 1) * 2 ^ ?s"
    unfolding round53_def Let_def using round_half_even_upper[of P ?s] by (rule mult_le_mono1)
  also have "\<dots> = (P div 2 ^ ?s) * 2 ^ ?s + 2 ^ ?s" by (simp add: algebra_simps)
  also have "\<dots> \<le> P + 2 ^ ?s" by simp
  finally show ?thesis .
qed

lemma round53_lower: "m * 2 ^ excess_bits P \<le> P \<Longrightarrow> m * 2 ^ excess_bits P \<le> round53 P"
proof -
  let ?s = "excess_bits P"
  assume "m * 2 ^ ?s \<le> P"
  then have "m \<le> P div 2 ^ ?s"
    by (simp add: less_eq_div_iff_mult_less_eq)
  then have "m \<le> round_half_even P ?s" using round_half_even_lower[of P ?s] by linarith
  then show ?thesis unfolding round53_def Let_def by simp
qed

lemma c066_times_50: "50 * c066 = 33 * 2 ^ 53 + 14"
  by (simp add: c066_def)

lemma train_size_floor:
  assumes "n \<le> 2 ^ 46"
  shows "train_size n = (33 * n) div 50"
proof -
  define P where "P = n * c066"
  define s where "s = excess_bits P"
  define k where "k = (33 * n) div 50"
  have n53: "n < 2 ^ 53" using assms by simp
  have fifty: "50 * P = 33 * n * 2 ^ 53 + 14 * n"
    unfolding P_def using c066_times_50 by (simp add: algebra_simps)
  have k_le: "50 * k \<le> 33 * n" unfolding k_def by simp
  have k_gt: "33 * n < 50 * k + 50"
    unfolding k_def
    using mod_less_divisor[of 50 "33 * n"] div_mult_mod_eq[of "33 * n" 50] by linarith
  have two_s: "2 ^ s \<le> 2 * n + 1"
  proof (cases "0 < s")
    case True
    then have "2 ^ 52 * 2 ^ s \<le> P" unfolding s_def by (rule excess_bits_lower)
    moreover have "c066 \<le> 2 ^ 53" by (simp add: c066_def)
    then have "P \<le> n * 2 ^ 53" unfolding P_def by (rule mult_le_mono2)
    ultimately have "2 ^ 52 * 2 ^ s \<le> n * 2 ^ 53" by (rule order_trans)
    then have "(2::nat) ^ s \<le> 2 * n" by simp
    then show ?thesis by simp
  next
    case False
    then show ?thesis by simp
  qed
  have s_le: "s \<le> 53"
  proof (rule ccontr)
    assume "\<not> s \<le> 53"
    then have "54 \<le> s" by simp
    then have "(2::nat) ^ 54 \<le> 2 ^ s" by (rule power_increasing) simp
    with two_s assms show False by simp
  qed
  have lower: "k * 2 ^ 53 \<le> round53 P"
  proof -
    have split: "k * 2 ^ 53 = (k * 2 ^ (53 - s)) * 2 ^ s"
      using s_le by (simp add: power_add[symmetric])
    have "50 * (k * 2 ^ 53) = (50 * k) * 2 ^ 53" by simp
    also have "\<dots> \<le> (33 * n) * 2 ^ 53" using k_le by (rule mult_le_mono1)
    also have "\<dots> \<le> 50 * P" using fifty by simp
    finally have "k * 2 ^ 53 \<le> P" by simp
    then have "(k * 2 ^ (53 - s)) * 2 ^ s \<le> P" by (simp only: split[symmetric])
    then have "(k * 2 ^ (53 - s)) * 2 ^ s \<le> round53 P" unfolding s_def by (rule round53_lower)
    then show ?thesis by (simp only: split[symmetric])
  qed
  have upper: "round53 P < (k + 1) * 2 ^ 53"
  proof -
    have "50 * (P + 2 ^ s) = 33 * n * 2 ^ 53 + 14 * n + 50 * 2 ^ s"
      using fifty by simp
    also have "\<dots> \<le> (50 * k + 49) * 2 ^ 53 + 14 * n + 50 * 2 ^ s"
    proof -
      have "33 * n \<le> 50 * k + 49" using k_gt by simp
      then have "33 * n * 2 ^ 53 \<le> (50 * k + 49) * 2 ^ 53" by (rule mult_le_mono1)
      then show ?thesis by simp
    qed
    also have "\<dots> \<le> (50 * k + 49) * 2 ^ 53 + 14 * n + 50 * (2 * n + 1)"
      using two_s by simp
    also have "\<dots> < (50 * k + 49) * 2 ^ 53 + 2 ^ 53"
      using assms by simp
    also have "\<dots> = 50 * ((k + 1) * 2 ^ 53)" by (simp add: algebra_simps)
    finally have "P + 2 ^ s < (k + 1) * 2 ^ 53" by simp
    moreover have "round53 P \<le> P + 2 ^ s" unfolding s_def by (rule round53_upper)
    ultimately show ?thesis by linarith
  qed
  have "round53 P div 2 ^ 53 = k"
    using lower upper by (intro div_nat_eqI) (simp_all add: algebra_simps)
  then show ?thesis
    by (simp add: train_size_def float_mul_066_def round53_exact[OF n53] P_def k_def)
qed

lemma floor_066: "nat \<lfloor>0.66 * real n\<rfloor> = (33 * n) div 50"
proof -
  have "0.66 * real n = real (33 * n) / real 50" by simp
  then have "\<lfloor>0.66 * real n\<rfloor> = int ((33 * n) div 50)"
    by (simp only: floor_divide_of_nat_eq)
  then show ?thesis by simp
qed

text \<open>
  C3. For a sequence of at most \<open>2^46\<close> observations (more than 7 * 10^13, 256 TiB of
  float32 values), the binary64 computation \<open>int(len(X) * 0.66)\<close> is the exact floor of
  0.66 times the length: the training prefix has that many observations and the
  held-out rest has the others. A sequence of 36 observations is split into 23 and 13.
\<close>

theorem split_series_sizes:
  assumes "length X \<le> 2 ^ 46" and "split_series X = (train, test)"
  shows "length train = nat \<lfloor>0.66 * real (length X)\<rfloor>
       \<and> length test = length X - nat \<lfloor>0.66 * real (length X)\<rfloor>
       \<and> train @ test = X
       \<and> (length X = 36 \<longrightarrow> length train = 23 \<and> length test = 13)"
proof -
  have ts: "train_size (length X) = (33 * length X) div 50"
    using assms(1) by (rule train_size_floor)
  have le: "(33 * length X) div 50 \<le> length X" by simp
  from assms(2) have tr: "train = take (train_size (length X)) X"
    and te: "test = drop (train_size (length X)) X"
    by (simp_all add: split_series_def Let_def)
  have d1: "length train = (33 * length X) div 50"
    using le by (simp add: tr ts)
  have d2: "length test = length X - (33 * length X) div 50"
    by (simp add: te ts)
  have l1: "length train = nat \<lfloor>0.66 * real (length X)\<rfloor>"
    using d1 by (simp only: floor_066)
  have l2: "length test = length X - nat \<lfloor>0.66 * real (length X)\<rfloor>"
    using d2 by (simp only: floor_066)
  have l3: "train @ test = X" by (simp add: tr te)
  have l4: "length X = 36 \<longrightarrow> length train = 23 \<and> length test = 13"
    using d1 d2 by simp
  from l1 l2 l3 l4 show ?thesis by blast
qed

theorem split_series_sizes_witness:
  "length (fst (split_series (map real [0..<36]))) = 23
   \<and> length (snd (split_series (map real [0..<36]))) = 13"
proof -
  have h: "length (map real [0..<36]) \<le> 2 ^ 46" by simp
  obtain train test where s: "split_series (map real [0..<36]) = (train, test)"
    by (cases "split_series (map real [0..<36])")
  from split_series_sizes[OF h s] show ?thesis by (simp add: s)
qed

lemma train_size_6: "train_size (Suc (Suc (Suc (Suc (Suc (Suc 0)))))) = Suc (Suc (Suc 0))"
proof -
  have "train_size 6 = 3"
    by (simp add: train_size_def float_mul_066_def round53_def round_half_even_def c066_def
        excess_bits.simps Let_def)
  then show ?thesis by (simp add: eval_nat_numeral)
qed

text \<open>
  The bound is not far from the first length at which the rounded product reaches the
  next integer: there the truncation is one more than the floor.
\<close>

lemma train_size_past_bound:
  "train_size 213238618720203 = 140737488355334
   \<and> (33 * 213238618720203) div 50 = (140737488355333 :: nat)"
  by (simp add: train_size_def float_mul_066_def round53_def round_half_even_def c066_def
      excess_bits.simps Let_def)

section \<open>The evaluator walks the held-out observations\<close>

lemma forecast_loop_collect:
  "forecast_loop fc ord test ts (h, ps) =
     (case collect (map (\<lambda>j. fc (h @ map ((!) test) (take j ts)) ord) [0..<length ts]) of
        Inl e \<Rightarrow> Inl e
      | Inr ys \<Rightarrow> Inr (h @ map ((!) test) ts, ps @ ys))"
proof (induction ts arbitrary: h ps)
  case Nil
  show ?case by simp
next
  case (Cons t ts)
  show ?case
  proof (cases "fc h ord")
    case (Inl e)
    then show ?thesis by (simp add: map_upt_Suc del: upt_Suc)
  next
    case (Inr yhat)
    then show ?thesis
      by (simp add: Cons.IH map_upt_Suc del: upt_Suc split: sum.splits)
  qed
qed

lemma map_nth_take_upt: "j \<le> length xs \<Longrightarrow> map ((!) xs) (take j [0..<length xs]) = take j xs"
  by (rule nth_equalityI) simp_all

lemma collect_cong:
  "(\<And>x. x \<in> set xs \<Longrightarrow> f x = g x) \<Longrightarrow> collect (map f xs) = collect (map g xs)"
  by (induction xs) (auto split: sum.splits)

lemma walk_forward_rolling:
  "walk_forward fc X ord =
     (case rolling_forecasts fc X ord of Inl e \<Rightarrow> Inl e | Inr ys \<Rightarrow> Inr (X, ys))"
proof -
  define n0 where "n0 = train_size (length X)"
  define test where "test = drop n0 X"
  define m where "m = length test"
  have m: "m = length X - n0" by (simp add: m_def test_def)
  have hist: "\<And>j. j \<in> set [0..<m] \<Longrightarrow>
      fc (take n0 X @ map ((!) test) (take j [0..<m])) ord = fc (take (n0 + j) X) ord"
  proof -
    fix j assume "j \<in> set [0..<m]"
    then have "j \<le> length test" by (simp add: m_def)
    then have "map ((!) test) (take j [0..<length test]) = take j test"
      by (rule map_nth_take_upt)
    then show "fc (take n0 X @ map ((!) test) (take j [0..<m])) ord = fc (take (n0 + j) X) ord"
      by (simp add: m_def test_def take_add)
  qed
  have "map ((!) test) [0..<m] = test" unfolding m_def by (rule map_nth)
  then have final: "take n0 X @ map ((!) test) [0..<m] = X"
    by (simp add: test_def)
  have "walk_forward fc X ord = forecast_loop fc ord test [0..<m] (take n0 X, [])"
    by (simp add: walk_forward_def split_series_def Let_def n0_def test_def m_def)
  also have "\<dots> =
     (case collect (map (\<lambda>j. fc (take n0 X @ map ((!) test) (take j [0..<m])) ord) [0..<m]) of
        Inl e \<Rightarrow> Inl e
      | Inr ys \<Rightarrow> Inr (take n0 X @ map ((!) test) [0..<m], [] @ ys))"
    using forecast_loop_collect[of fc ord test "[0..<m]" "take n0 X" "[]"] by simp
  also have "collect (map (\<lambda>j. fc (take n0 X @ map ((!) test) (take j [0..<m])) ord) [0..<m])
      = collect (map (\<lambda>t. fc (take (n0 + t) X) ord) [0..<m])"
    by (rule collect_cong) (rule hist)
  also have "collect (map (\<lambda>t. fc (take (n0 + t) X) ord) [0..<m]) = rolling_forecasts fc X ord"
    by (simp add: rolling_forecasts_def Let_def n0_def m)
  finally show ?thesis by (simp add: final split: sum.split)
qed

lemma collect_length: "collect rs = Inr ys \<Longrightarrow> length ys = length rs"
  by (induction rs arbitrary: ys) (auto split: sum.splits)

lemma collect_nth: "collect rs = Inr ys \<Longrightarrow> i < length rs \<Longrightarrow> rs ! i = Inr (ys ! i)"
proof (induction rs arbitrary: ys i)
  case Nil then show ?case by simp
next
  case (Cons r rs)
  then show ?case by (cases i) (auto split: sum.splits)
qed

lemma collect_first_error:
  "i < length rs \<Longrightarrow> rs ! i = Inl e \<Longrightarrow> (\<And>j. j < i \<Longrightarrow> \<exists>y. rs ! j = Inr y) \<Longrightarrow> collect rs = Inl e"
proof (induction rs arbitrary: i)
  case Nil then show ?case by simp
next
  case (Cons r rs)
  show ?case
  proof (cases i)
    case 0
    with Cons.prems show ?thesis by simp
  next
    case (Suc k)
    with Cons.prems(3)[of 0] obtain y where r: "r = Inr y" by auto
    have "collect rs = Inl e"
    proof (rule Cons.IH[of k])
      show "k < length rs" using Cons.prems(1) Suc by simp
      show "rs ! k = Inl e" using Cons.prems(2) Suc by simp
      fix j assume "j < k"
      then show "\<exists>y. rs ! j = Inr y" using Cons.prems(3)[of "Suc j"] Suc by simp
    qed
    with r show ?thesis by simp
  qed
qed




lemma rolling_forecasts_fail:
  assumes "t < length X - train_size (length X)"
    and "fc (take (train_size (length X) + t) X) ord = Inl e"
    and "\<forall>j<t. \<exists>y. fc (take (train_size (length X) + j) X) ord = Inr y"
  shows "rolling_forecasts fc X ord = Inl e"
proof -
  let ?rs = "map (\<lambda>t. fc (take (train_size (length X) + t) X) ord) [0..<length X - train_size (length X)]"
  have "collect ?rs = Inl e"
  proof (rule collect_first_error[of t])
    show "t < length ?rs" using assms(1) by simp
    show "?rs ! t = Inl e" using assms(1,2) by simp
    fix j assume "j < t"
    then show "\<exists>y. ?rs ! j = Inr y" using assms(1,3) by simp
  qed
  then show ?thesis by (simp add: rolling_forecasts_def Let_def)
qed

lemma evaluate_arima_model_rolling:
  "evaluate_arima_model fc X ord =
     (case rolling_forecasts fc X ord of
        Inl e \<Rightarrow> Inl e
      | Inr preds \<Rightarrow> mean_squared_error (drop (train_size (length X)) X) preds)"
  by (simp add: evaluate_arima_model_def walk_forward_rolling split_series_def Let_def
      split: sum.split)





section \<open>The grid search keeps the first minimum\<close>

lemma loop_q_foldl:
  "loop_q ev p d qs st = foldl (\<lambda>s c. try_order ev c s) st (map (\<lambda>q. (p, d, q)) qs)"
  by (induction qs arbitrary: st) simp_all

lemma loop_d_foldl:
  "loop_d ev p ds qs st =
     foldl (\<lambda>s c. try_order ev c s) st [(p, d, q). d \<leftarrow> ds, q \<leftarrow> qs]"
  by (induction ds arbitrary: st) (simp_all add: loop_q_foldl)

lemma loop_p_foldl:
  "loop_p ev ps ds qs st = foldl (\<lambda>s c. try_order ev c s) st (grid ps ds qs)"
  by (induction ps arbitrary: st) (simp_all add: loop_d_foldl grid_def)









lemma try_order_fail: "ev c = Inl e \<Longrightarrow> try_order ev c st = st"
  by (simp add: try_order_def)

lemma try_order_keep_best: "ev c = Inr m \<Longrightarrow> try_order ev c st = keep_best st (c, m)"
  by (simp add: try_order_def keep_best_def)









lemma foldl_all_fail:
  "\<forall>c \<in> set cs. \<exists>e. ev c = Inl e \<Longrightarrow> foldl (\<lambda>s c. try_order ev c s) st cs = st"
  by (induction cs arbitrary: st) (auto simp: try_order_fail)

lemma foldl_successes:
  "foldl (\<lambda>s c. try_order ev c s) st cs = foldl keep_best st (successes ev cs)"
proof (induction cs arbitrary: st)
  case Nil
  show ?case by simp
next
  case (Cons c cs)
  show ?case
  proof (cases "ev c")
    case (Inl e)
    then show ?thesis by (simp add: Cons.IH try_order_fail)
  next
    case (Inr m)
    then show ?thesis by (simp add: Cons.IH try_order_keep_best)
  qed
qed

lemma small_threshold: "x \<le> 2 ^ 64 \<Longrightarrow> x < overflow_threshold"
  by (simp add: overflow_threshold_def)

lemma naive_eval:
  "evaluate_arima_model naive [1, 2, 3, 4, 5, 6] (p, d, q) =
     (if p = 2 then Inl FitError
      else if 3 * (real_of_int (p + d + q) - 1)\<^sup>2 < overflow_threshold
           then Inr (Finite ((real_of_int (p + d + q) - 1)\<^sup>2)) else Inr PosInf)"
proof -
  have "(4 - (3 + k))\<^sup>2 + ((5 - (4 + k))\<^sup>2 + (6 - (5 + k))\<^sup>2) = 3 * (k - 1)\<^sup>2" for k :: real
    by (simp add: power2_eq_square field_simps)
  then have "mean_squared_error [4, 5, 6] [3 + k, 4 + k, 5 + k] =
      (if 3 * (k - 1)\<^sup>2 < overflow_threshold then Inr (Finite ((k - 1)\<^sup>2)) else Inr PosInf)"
    for k :: real
    by (simp add: mean_squared_error_def Let_def)
  then show ?thesis
    by (simp add: evaluate_arima_model_def walk_forward_def split_series_def Let_def train_size_6
        naive_def upt_rec)
qed

lemma fmt_3f_small: "fmt_3f (Finite 0) = ''0.000''" "fmt_3f (Finite 1) = ''1.000''"
  "fmt_3f (Finite 4) = ''4.000''"
  by (simp_all add: nearest_even_def decimal.simps digit_def)

lemma str_cfg_small: "str_int 0 = ''0''" "str_int 1 = ''1''" "str_int 2 = ''2''"
  by (simp_all add: str_int_def decimal.simps digit_def)








text \<open>
  C4. The evaluator has no handler: the first exception of a fit is the evaluator's
  result. The driver's handler absorbs any exception of the evaluation and the loops go
  on: the whole run is the run over the configurations whose evaluation returned, in
  enumeration order, each handled as a success; a failed configuration changes neither
  the best score nor the best configuration nor the printed lines, and the
  configurations after it are evaluated as they would be without it.
\<close>

theorem fit_failure_propagates_and_is_skipped:
  "let ev = evaluate_arima_model fc (map f32 dataset);
       cs = grid p_values d_values q_values;
       st0 = \<lparr>best_score = PosInf, best_cfg = None, stdout = []\<rparr>
   in (t < length X - train_size (length X)
        \<and> fc (take (train_size (length X) + t) X) ord = Inl e
        \<and> (\<forall>j<t. \<exists>y. fc (take (train_size (length X) + j) X) ord = Inr y)
       \<longrightarrow> walk_forward fc X ord = Inl e \<and> evaluate_arima_model fc X ord = Inl e)
    \<and> grid_search ev p_values d_values q_values = foldl keep_best st0 (successes ev cs)
    \<and> evaluate_models f32 fc dataset p_values d_values q_values =
        (foldl keep_best st0 (successes ev cs))
          \<lparr>stdout := stdout (foldl keep_best st0 (successes ev cs))
                      @ [summary_line (foldl keep_best st0 (successes ev cs))]\<rparr>
    \<and> (cs = before @ c # after \<and> ev c = Inl e' \<longrightarrow>
         foldl (\<lambda>s c. try_order ev c s) st0 (before @ [c]) = foldl (\<lambda>s c. try_order ev c s) st0 before
       \<and> grid_search ev p_values d_values q_values =
           foldl (\<lambda>s c. try_order ev c s) (foldl (\<lambda>s c. try_order ev c s) st0 before) after
       \<and> successes ev cs = successes ev before @ successes ev after)"
proof -
  define ev where "ev = evaluate_arima_model fc (map f32 dataset)"
  define cs where "cs = grid p_values d_values q_values"
  define st0 where "st0 = \<lparr>best_score = PosInf, best_cfg = None, stdout = []\<rparr>"
  have a: "walk_forward fc X ord = Inl e \<and> evaluate_arima_model fc X ord = Inl e"
    if "t < length X - train_size (length X)"
      and "fc (take (train_size (length X) + t) X) ord = Inl e"
      and "\<forall>j<t. \<exists>y. fc (take (train_size (length X) + j) X) ord = Inr y"
  proof -
    from that have "rolling_forecasts fc X ord = Inl e" by (rule rolling_forecasts_fail)
    then show ?thesis by (simp add: walk_forward_rolling evaluate_arima_model_rolling)
  qed
  have gs: "grid_search ev p_values d_values q_values = foldl (\<lambda>s c. try_order ev c s) st0 cs"
    by (simp add: grid_search_def loop_p_foldl cs_def st0_def)
  have b: "grid_search ev p_values d_values q_values = foldl keep_best st0 (successes ev cs)"
    by (simp only: gs foldl_successes)
  have c: "evaluate_models f32 fc dataset p_values d_values q_values =
        (foldl keep_best st0 (successes ev cs))
          \<lparr>stdout := stdout (foldl keep_best st0 (successes ev cs))
                      @ [summary_line (foldl keep_best st0 (successes ev cs))]\<rparr>"
    using b by (simp add: evaluate_models_def Let_def ev_def)
  have succ_app: "successes ev (xs @ ys) = successes ev xs @ successes ev ys" for xs ys
    by (induction xs) (simp_all split: sum.splits)
  have d: "foldl (\<lambda>s c. try_order ev c s) st0 (before @ [c]) = foldl (\<lambda>s c. try_order ev c s) st0 before
       \<and> grid_search ev p_values d_values q_values =
           foldl (\<lambda>s c. try_order ev c s) (foldl (\<lambda>s c. try_order ev c s) st0 before) after
       \<and> successes ev cs = successes ev before @ successes ev after"
    if split: "cs = before @ c # after" and fail: "ev c = Inl e'"
  proof -
    have s1: "foldl (\<lambda>s c. try_order ev c s) st0 (before @ [c]) = foldl (\<lambda>s c. try_order ev c s) st0 before"
      using fail by (simp add: try_order_fail[of ev c])
    have s2: "grid_search ev p_values d_values q_values =
           foldl (\<lambda>s c. try_order ev c s) (foldl (\<lambda>s c. try_order ev c s) st0 before) after"
      using fail by (simp add: gs split try_order_fail[of ev c])
    have s3: "successes ev cs = successes ev before @ successes ev after"
      using fail by (simp add: split succ_app)
    from s1 s2 s3 show ?thesis by blast
  qed
  from a b c d show ?thesis
    unfolding Let_def ev_def[symmetric] cs_def[symmetric] st0_def[symmetric] by blast
qed

theorem fit_failure_propagates_and_is_skipped_witness:
  "evaluate_arima_model naive [1, 2, 3, 4, 5, 6] (2, 0, 1) = Inl FitError
   \<and> successes (evaluate_arima_model naive [1, 2, 3, 4, 5, 6]) (grid [0, 2, 1] [0] [1])
       = [((0, 0, 1), Finite 0), ((1, 0, 1), Finite 1)]
   \<and> evaluate_models (\<lambda>x. x) naive [1, 2, 3, 4, 5, 6] [0, 2, 1] [0] [1] =
       \<lparr>best_score = Finite 0, best_cfg = Some (0, 0, 1),
        stdout = [''ARIMA(0, 0, 1) MSE=0.000'', ''ARIMA(1, 0, 1) MSE=1.000'',
                  ''Best ARIMA(0, 0, 1) MSE=0.000'']\<rparr>"
proof -
  have f: "naive (take (train_size (length [1, 2, 3, 4, 5, 6 :: real]) + 0) [1, 2, 3, 4, 5, 6]) (2, 0, 1)
           = Inl FitError"
    by (simp add: naive_def)
  have l: "0 < length [1, 2, 3, 4, 5, 6 :: real] - train_size (length [1, 2, 3, 4, 5, 6 :: real])"
    by (simp add: train_size_6)
  have s: "successes (evaluate_arima_model naive [1, 2, 3, 4, 5, 6]) (grid [0, 2, 1] [0] [1])
       = [((0, 0, 1), Finite 0), ((1, 0, 1), Finite 1)]"
    by (simp add: grid_def naive_eval small_threshold)
  note th = fit_failure_propagates_and_is_skipped[where fc = naive and ?f32.0 = "\<lambda>x. x"
      and dataset = "[1, 2, 3, 4, 5, 6]" and p_values = "[0, 2, 1]" and d_values = "[0]"
      and q_values = "[1]" and X = "[1, 2, 3, 4, 5, 6]" and ord = "(2, 0, 1)" and t = 0
      and e = FitError, unfolded Let_def]
  from th f l have e: "evaluate_arima_model naive [1, 2, 3, 4, 5, 6] (2, 0, 1) = Inl FitError"
    by simp
  from th[THEN conjunct2, THEN conjunct2, THEN conjunct1]
  have "evaluate_models (\<lambda>x. x) naive [1, 2, 3, 4, 5, 6] [0, 2, 1] [0] [1] =
       \<lparr>best_score = Finite 0, best_cfg = Some (0, 0, 1),
        stdout = [''ARIMA(0, 0, 1) MSE=0.000'', ''ARIMA(1, 0, 1) MSE=1.000'',
                  ''Best ARIMA(0, 0, 1) MSE=0.000'']\<rparr>"
    by (simp add: s keep_best_def eval_line_def summary_line_def fmt_3f_small str_cfg_small
        del: fmt_3f.simps)
  with e s show ?thesis by simp
qed

text \<open>
  C5. When every configuration fails, the best score is still infinite and the best
  configuration is still \<open>None\<close>; the summary line is formatted from these two values
  without an error, \<open>%s\<close> of \<open>None\<close> and \<open>%.3f\<close> of infinity, and is the only line
  printed.
\<close>

theorem all_configurations_fail:
  assumes "\<forall>c \<in> set (grid p_values d_values q_values).
             \<exists>e. evaluate_arima_model fc (map f32 dataset) c = Inl e"
  shows "evaluate_models f32 fc dataset p_values d_values q_values =
           \<lparr>best_score = PosInf, best_cfg = None, stdout = [''Best ARIMANone MSE=inf'']\<rparr>"
proof -
  from assms have "grid_search (evaluate_arima_model fc (map f32 dataset)) p_values d_values q_values
      = \<lparr>best_score = PosInf, best_cfg = None, stdout = []\<rparr>"
    by (simp add: grid_search_def loop_p_foldl foldl_all_fail)
  then show ?thesis by (simp add: evaluate_models_def summary_line_def)
qed

theorem all_configurations_fail_witness:
  "evaluate_models (\<lambda>x. x) (\<lambda>history ord. Inl FitError) [1, 2, 3] [0, 1] [0] [0] =
     \<lparr>best_score = PosInf, best_cfg = None, stdout = [''Best ARIMANone MSE=inf'']\<rparr>"
proof -
  have "\<forall>c \<in> set (grid [0, 1] [0] [0]).
          \<exists>e. evaluate_arima_model (\<lambda>history ord. Inl FitError) (map (\<lambda>x. x) [1, 2, 3]) c = Inl e"
    by (simp add: grid_def evaluate_arima_model_def walk_forward_def split_series_def Let_def
        train_size_def float_mul_066_def round53_def round_half_even_def c066_def
        excess_bits.simps upt_rec)
  then show ?thesis by (rule all_configurations_fail)
qed

section \<open>The store: what the two functions leave unchanged\<close>

lemma array_read_nth:
  "valid_array h v \<Longrightarrow> t < array_len v \<Longrightarrow> array_read h v ! t = array_get h v t"
  by (simp add: array_read_def array_get_def valid_array_def array_len_def)

lemma array_read_train: "array_read h (slice X 0 n) = take n (array_read h X)"
  by (simp add: array_read_def slice_def array_len_def Let_def min.commute)

lemma array_read_test: "array_read h (slice X n (array_len X)) = drop n (array_read h X)"
proof (cases "n \<le> array_len X")
  case True
  then show ?thesis
    by (simp add: array_read_def slice_def array_len_def Let_def drop_take min_def max_def add.commute)
next
  case False
  then show ?thesis
    by (simp add: array_read_def slice_def array_len_def Let_def min_def max_def)
qed

lemma valid_slice: "valid_array h X \<Longrightarrow> valid_array h (slice X i j)"
  by (auto simp: valid_array_def slice_def array_len_def Let_def min_def max_def)

lemma length_array_read: "valid_array h v \<Longrightarrow> length (array_read h v) = array_len v"
  by (auto simp: array_read_def valid_array_def array_len_def)

lemma forecast_loop_st_refines:
  assumes "valid_array h0 test" and "\<forall>t \<in> set ts. t < array_len test"
  shows "\<exists>hist' preds'.
     forecast_loop_st fc ord test (length h0) (Suc (length h0)) ts (h0 @ [hist, preds]) =
       (case forecast_loop fc ord (array_read h0 test) ts (hist, preds) of
          Inl e \<Rightarrow> Some e | Inr r \<Rightarrow> None, h0 @ [hist', preds'])
     \<and> (\<forall>r. forecast_loop fc ord (array_read h0 test) ts (hist, preds) = Inr r \<longrightarrow> r = (hist', preds'))"
  using assms(2)
proof (induction ts arbitrary: hist preds)
  case Nil
  show ?case by simp
next
  case (Cons t ts)
  show ?case
  proof (cases "fc hist ord")
    case (Inl e)
    then show ?thesis by (simp add: nth_append)
  next
    case (Inr yhat)
    have t: "t < array_len test" using Cons.prems by simp
    have "base test < length h0" using assms(1) by (simp add: valid_array_def)
    then have "array_get (list_append (h0 @ [hist, preds]) (Suc (length h0)) yhat) test t
           = array_get h0 test t"
      by (simp add: array_get_def list_append_def nth_append)
    then have g: "array_get (list_append (h0 @ [hist, preds]) (Suc (length h0)) yhat) test t
           = array_read h0 test ! t"
      using array_read_nth[OF assms(1) t] by simp
    have upd: "list_append (list_append (h0 @ [hist, preds]) (Suc (length h0)) yhat) (length h0)
              (array_read h0 test ! t) = h0 @ [hist @ [array_read h0 test ! t], preds @ [yhat]]"
      by (simp add: list_append_def nth_append list_update_append)
    from Cons.IH[of "hist @ [array_read h0 test ! t]" "preds @ [yhat]"] Cons.prems
    show ?thesis
      using Inr by (simp add: nth_append g upd Let_def)
  qed
qed


lemma walk_forward_st_refines:
  assumes "valid_array h X"
  shows "\<exists>hist preds.
     walk_forward_st fc h X ord =
       (case walk_forward fc (array_read h X) ord of
          Inl e \<Rightarrow> Inl e | Inr r \<Rightarrow> Inr (length h, Suc (length h)), h @ [hist, preds])
     \<and> (\<forall>r. walk_forward fc (array_read h X) ord = Inr r \<longrightarrow> r = (hist, preds))"
proof -
  define n0 where "n0 = train_size (array_len X)"
  define test where "test = slice X n0 (array_len X)"
  have len: "length (array_read h X) = array_len X" using assms by (rule length_array_read)
  have vt: "valid_array h test" unfolding test_def using assms by (rule valid_slice)
  have rt: "array_read h test = drop n0 (array_read h X)"
    unfolding test_def by (rule array_read_test)
  have lt: "array_len test = length (drop n0 (array_read h X))"
    using length_array_read[OF vt] rt by simp
  have rng: "\<forall>t \<in> set [0..<array_len test]. t < array_len test" by simp
  from forecast_loop_st_refines[OF vt rng, of fc ord "take n0 (array_read h X)" "[]"]
  obtain hist preds where
    l: "forecast_loop_st fc ord test (length h) (Suc (length h)) [0..<array_len test]
          (h @ [take n0 (array_read h X), []]) =
        (case forecast_loop fc ord (array_read h test) [0..<array_len test]
                (take n0 (array_read h X), []) of
           Inl e \<Rightarrow> Some e | Inr r \<Rightarrow> None, h @ [hist, preds])"
    and r: "\<forall>r. forecast_loop fc ord (array_read h test) [0..<array_len test]
                (take n0 (array_read h X), []) = Inr r \<longrightarrow> r = (hist, preds)"
    by blast
  have pure: "walk_forward fc (array_read h X) ord =
      forecast_loop fc ord (array_read h test) [0..<array_len test] (take n0 (array_read h X), [])"
    by (simp add: walk_forward_def split_series_def Let_def len n0_def[symmetric] rt lt)
  have "walk_forward_st fc h X ord =
      (case forecast_loop_st fc ord test (length h) (Suc (length h)) [0..<array_len test]
              (h @ [take n0 (array_read h X), []]) of
         (Some e, h3) \<Rightarrow> (Inl e, h3)
       | (None, h3) \<Rightarrow> (Inr (length h, Suc (length h)), h3))"
    by (simp add: walk_forward_st_def Let_def alloc_def n0_def[symmetric] test_def[symmetric]
        array_read_train split: prod.split option.split)
  with l r pure show ?thesis
    by (auto split: sum.splits)
qed

lemma predictions_of_refines:
  assumes "valid_array h X"
  shows "predictions_of (walk_forward_st fc h X ord) =
     (case walk_forward fc (array_read h X) ord of
        Inl e \<Rightarrow> Inl e | Inr (hist, preds) \<Rightarrow> Inr preds)"
proof -
  from walk_forward_st_refines[OF assms, of fc ord] obtain hist preds where
    w: "walk_forward_st fc h X ord =
       (case walk_forward fc (array_read h X) ord of
          Inl e \<Rightarrow> Inl e | Inr r \<Rightarrow> Inr (length h, Suc (length h)), h @ [hist, preds])"
    and r: "\<forall>r. walk_forward fc (array_read h X) ord = Inr r \<longrightarrow> r = (hist, preds)"
    by blast
  show ?thesis
  proof (cases "walk_forward fc (array_read h X) ord")
    case (Inl e)
    with w show ?thesis by (simp add: predictions_of_def)
  next
    case (Inr res)
    with r have "res = (hist, preds)" by simp
    with w Inr show ?thesis by (simp add: predictions_of_def nth_append)
  qed
qed

lemma array_read_extend: "base v < length h \<Longrightarrow> array_read (h @ ext) v = array_read h v"
  by (simp add: array_read_def nth_append)

lemma valid_array_extend: "valid_array h v \<Longrightarrow> valid_array (h @ ext) v"
  by (simp add: valid_array_def nth_append)

lemma evaluate_arima_model_st_refines:
  assumes "valid_array h X"
  shows "\<exists>ext. evaluate_arima_model_st fc h X ord =
           (evaluate_arima_model fc (array_read h X) ord, h @ ext)"
proof -
  from walk_forward_st_refines[OF assms, of fc ord] obtain hist preds where
    w: "walk_forward_st fc h X ord =
       (case walk_forward fc (array_read h X) ord of
          Inl e \<Rightarrow> Inl e | Inr r \<Rightarrow> Inr (length h, Suc (length h)), h @ [hist, preds])"
    and r: "\<forall>r. walk_forward fc (array_read h X) ord = Inr r \<longrightarrow> r = (hist, preds)"
    by blast
  have b: "base (slice X (train_size (array_len X)) (array_len X)) < length h"
    using valid_slice[OF assms] by (simp add: valid_array_def)
  have len: "length (array_read h X) = array_len X" using assms by (rule length_array_read)
  have bX: "array_read (h @ [hist, preds]) X = array_read h X"
    using assms by (simp add: array_read_extend valid_array_def)
  show ?thesis
  proof (cases "walk_forward fc (array_read h X) ord")
    case (Inl e)
    with w show ?thesis by (simp add: evaluate_arima_model_st_def evaluate_arima_model_def)
  next
    case (Inr res)
    with r have "res = (hist, preds)" by simp
    with w Inr show ?thesis
      by (simp add: evaluate_arima_model_st_def evaluate_arima_model_def nth_append
          array_read_test split_series_def Let_def len bX)
  qed
qed

lemma try_order_st_refines:
  assumes "valid_array h D"
  shows "\<exists>ext. try_order_st fc D ord (st, h) =
           (try_order (evaluate_arima_model fc (array_read h D)) ord st, h @ ext)"
proof -
  from evaluate_arima_model_st_refines[OF assms, of fc ord] obtain ext where
    "evaluate_arima_model_st fc h D ord = (evaluate_arima_model fc (array_read h D) ord, h @ ext)"
    by blast
  then show ?thesis
    by (cases "evaluate_arima_model fc (array_read h D) ord")
      (simp_all add: try_order_st_def try_order_def Let_def)
qed

lemma loop_q_st_refines:
  assumes "valid_array h D"
  shows "\<exists>ext. loop_q_st fc D p d qs (st, h) =
           (loop_q (evaluate_arima_model fc (array_read h D)) p d qs st, h @ ext)"
  using assms
proof (induction qs arbitrary: st h)
  case Nil
  show ?case by simp
next
  case (Cons q qs)
  from try_order_st_refines[OF Cons.prems, of fc "(p, d, q)" st] obtain e1 where
    s1: "try_order_st fc D (p, d, q) (st, h) =
           (try_order (evaluate_arima_model fc (array_read h D)) (p, d, q) st, h @ e1)"
    by blast
  have v: "valid_array (h @ e1) D" using Cons.prems by (rule valid_array_extend)
  have rd: "array_read (h @ e1) D = array_read h D"
    using Cons.prems by (simp add: array_read_extend valid_array_def)
  from Cons.IH[OF v, of "try_order (evaluate_arima_model fc (array_read h D)) (p, d, q) st"]
  obtain e2 where
    "loop_q_st fc D p d qs (try_order (evaluate_arima_model fc (array_read h D)) (p, d, q) st, h @ e1) =
       (loop_q (evaluate_arima_model fc (array_read (h @ e1) D)) p d qs
          (try_order (evaluate_arima_model fc (array_read h D)) (p, d, q) st), (h @ e1) @ e2)"
    by blast
  with s1 rd show ?case by simp
qed

lemma loop_d_st_refines:
  assumes "valid_array h D"
  shows "\<exists>ext. loop_d_st fc D p ds qs (st, h) =
           (loop_d (evaluate_arima_model fc (array_read h D)) p ds qs st, h @ ext)"
  using assms
proof (induction ds arbitrary: st h)
  case Nil
  show ?case by simp
next
  case (Cons d ds)
  from loop_q_st_refines[OF Cons.prems, of fc p d qs st] obtain e1 where
    s1: "loop_q_st fc D p d qs (st, h) =
           (loop_q (evaluate_arima_model fc (array_read h D)) p d qs st, h @ e1)"
    by blast
  have v: "valid_array (h @ e1) D" using Cons.prems by (rule valid_array_extend)
  have rd: "array_read (h @ e1) D = array_read h D"
    using Cons.prems by (simp add: array_read_extend valid_array_def)
  from Cons.IH[OF v, of "loop_q (evaluate_arima_model fc (array_read h D)) p d qs st"]
  obtain e2 where
    "loop_d_st fc D p ds qs (loop_q (evaluate_arima_model fc (array_read h D)) p d qs st, h @ e1) =
       (loop_d (evaluate_arima_model fc (array_read (h @ e1) D)) p ds qs
          (loop_q (evaluate_arima_model fc (array_read h D)) p d qs st), (h @ e1) @ e2)"
    by blast
  with s1 rd show ?case by simp
qed

lemma loop_p_st_refines:
  assumes "valid_array h D"
  shows "\<exists>ext. loop_p_st fc D ps ds qs (st, h) =
           (loop_p (evaluate_arima_model fc (array_read h D)) ps ds qs st, h @ ext)"
  using assms
proof (induction ps arbitrary: st h)
  case Nil
  show ?case by simp
next
  case (Cons p ps)
  from loop_d_st_refines[OF Cons.prems, of fc p ds qs st] obtain e1 where
    s1: "loop_d_st fc D p ds qs (st, h) =
           (loop_d (evaluate_arima_model fc (array_read h D)) p ds qs st, h @ e1)"
    by blast
  have v: "valid_array (h @ e1) D" using Cons.prems by (rule valid_array_extend)
  have rd: "array_read (h @ e1) D = array_read h D"
    using Cons.prems by (simp add: array_read_extend valid_array_def)
  from Cons.IH[OF v, of "loop_d (evaluate_arima_model fc (array_read h D)) p ds qs st"]
  obtain e2 where
    "loop_p_st fc D ps ds qs (loop_d (evaluate_arima_model fc (array_read h D)) p ds qs st, h @ e1) =
       (loop_p (evaluate_arima_model fc (array_read (h @ e1) D)) ps ds qs
          (loop_d (evaluate_arima_model fc (array_read h D)) p ds qs st), (h @ e1) @ e2)"
    by blast
  with s1 rd show ?case by simp
qed

lemma evaluate_models_st_refines:
  assumes "valid_array h dataset"
  shows "\<exists>ext. evaluate_models_st f32 fc h dataset ps ds qs =
           (evaluate_models f32 fc (array_read h dataset) ps ds qs, h @ ext)"
proof -
  define D where "D = \<lparr>base = length h, start = 0, stop = array_len dataset\<rparr>"
  define h1 where "h1 = h @ [map f32 (array_read h dataset)]"
  have a: "astype_float32 f32 h dataset = (D, h1)"
    by (simp add: astype_float32_def alloc_def D_def h1_def)
  have len: "length (array_read h dataset) = array_len dataset"
    using assms by (rule length_array_read)
  have v: "valid_array h1 D"
    by (simp add: valid_array_def D_def h1_def len)
  have rd: "array_read h1 D = map f32 (array_read h dataset)"
    by (simp add: array_read_def D_def h1_def array_len_def len)
  from loop_p_st_refines[OF v, of fc ps ds qs "\<lparr>best_score = PosInf, best_cfg = None, stdout = []\<rparr>"]
  obtain e where
    "loop_p_st fc D ps ds qs (\<lparr>best_score = PosInf, best_cfg = None, stdout = []\<rparr>, h1) =
       (loop_p (evaluate_arima_model fc (array_read h1 D)) ps ds qs
          \<lparr>best_score = PosInf, best_cfg = None, stdout = []\<rparr>, h1 @ e)"
    by blast
  then have "evaluate_models_st f32 fc h dataset ps ds qs =
      (evaluate_models f32 fc (array_read h dataset) ps ds qs,
       h @ (map f32 (array_read h dataset) # e))"
    by (simp add: evaluate_models_st_def a rd[unfolded h1_def] evaluate_models_def grid_search_def
        Let_def h1_def)
  then show ?thesis by blast
qed

lemma walk_forward_st_fresh:
  assumes "valid_array h X" and "walk_forward_st fc h X ord = (Inr (history, predictions), h')"
  shows "history = length h \<and> predictions = Suc (length h) \<and> history \<noteq> base X"
proof -
  from walk_forward_st_refines[OF assms(1), of fc ord] obtain hist preds where
    w: "walk_forward_st fc h X ord =
       (case walk_forward fc (array_read h X) ord of
          Inl e \<Rightarrow> Inl e | Inr r \<Rightarrow> Inr (length h, Suc (length h)), h @ [hist, preds])"
    by blast
  have "base X < length h" using assms(1) by (simp add: valid_array_def)
  with w assms(2) show ?thesis by (auto split: sum.splits)
qed

text \<open>
  C10. Neither function changes the caller's series. Every object that exists before a
  call of \<open>evaluate_arima_model\<close> is the same after it, the array \<open>X\<close> included: the
  growing history is a new list, not \<open>X\<close>'s buffer. \<open>evaluate_models\<close> works on a new
  array holding the converted values; every object of the caller is the same after the
  call.
\<close>

theorem caller_series_unchanged:
  assumes "valid_array h X"
  shows "take (length h) (snd (evaluate_arima_model_st fc h X ord)) = h
       \<and> array_read (snd (evaluate_arima_model_st fc h X ord)) X = array_read h X
       \<and> (\<forall>history predictions h'.
            walk_forward_st fc h X ord = (Inr (history, predictions), h') \<longrightarrow>
              history = length h \<and> history \<noteq> base X)
       \<and> base (fst (astype_float32 f32 h X)) = length h
       \<and> array_read (snd (astype_float32 f32 h X)) (fst (astype_float32 f32 h X))
           = map f32 (array_read h X)
       \<and> take (length h) (snd (evaluate_models_st f32 fc h X p_values d_values q_values)) = h
       \<and> array_read (snd (evaluate_models_st f32 fc h X p_values d_values q_values)) X
           = array_read h X"
proof -
  have b: "base X < length h" using assms by (simp add: valid_array_def)
  from evaluate_arima_model_st_refines[OF assms, of fc ord] obtain e1 where
    e1: "snd (evaluate_arima_model_st fc h X ord) = h @ e1" by force
  from evaluate_models_st_refines[OF assms, of f32 fc p_values d_values q_values] obtain e2 where
    e2: "snd (evaluate_models_st f32 fc h X p_values d_values q_values) = h @ e2" by force
  have c1: "take (length h) (snd (evaluate_arima_model_st fc h X ord)) = h"
    by (simp add: e1)
  have c2: "array_read (snd (evaluate_arima_model_st fc h X ord)) X = array_read h X"
    by (simp add: e1 array_read_extend[OF b])
  have c3: "\<forall>history predictions h'.
            walk_forward_st fc h X ord = (Inr (history, predictions), h') \<longrightarrow>
              history = length h \<and> history \<noteq> base X"
    using walk_forward_st_fresh[OF assms] by blast
  have c4: "base (fst (astype_float32 f32 h X)) = length h"
    by (simp add: astype_float32_def alloc_def)
  have c5: "array_read (snd (astype_float32 f32 h X)) (fst (astype_float32 f32 h X))
           = map f32 (array_read h X)"
    using length_array_read[OF assms]
    by (simp add: astype_float32_def alloc_def array_read_def array_len_def)
  have c6: "take (length h) (snd (evaluate_models_st f32 fc h X p_values d_values q_values)) = h"
    by (simp add: e2)
  have c7: "array_read (snd (evaluate_models_st f32 fc h X p_values d_values q_values)) X
           = array_read h X"
    by (simp add: e2 array_read_extend[OF b])
  from c1 c2 c3 c4 c5 c6 c7 show ?thesis by blast
qed

theorem caller_series_unchanged_witness:
  "valid_array one_array whole
   \<and> take 1 (snd (evaluate_arima_model_st naive one_array whole (0, 0, 1))) = [[1, 2, 3, 4, 5, 6]]
   \<and> array_read (snd (evaluate_models_st (\<lambda>x. x / 2) naive one_array whole [0] [0] [1])) whole
       = [1, 2, 3, 4, 5, 6]"
proof -
  have v: "valid_array one_array whole"
    by (simp add: valid_array_def one_array_def whole_def)
  have r: "array_read one_array whole = [1, 2, 3, 4, 5, 6]"
    by (simp add: array_read_def one_array_def whole_def array_len_def)
  have l: "length one_array = 1" by (simp add: one_array_def)
  from caller_series_unchanged[OF v, of naive "(0, 0, 1)" "\<lambda>x. x / 2" "[0]" "[0]" "[1]"] v r l
  show ?thesis by (simp add: one_array_def)
qed

text \<open>
  With the library's fit and forecast taken as a function of the history and the order,
  the evaluator adds no dependence of its own: its prediction list and its error (or
  exception) are the same for equal series, wherever the series is stored and whatever
  else the store holds, and the same again in the store a first invocation has left.
  Whether the library itself returns the same forecast on every call is outside this
  statement.
\<close>

theorem evaluator_deterministic:
  assumes "valid_array h1 X1" and "valid_array h2 X2" and "array_read h1 X1 = array_read h2 X2"
  shows "predictions_of (walk_forward_st fc h1 X1 ord) = predictions_of (walk_forward_st fc h2 X2 ord)
       \<and> fst (evaluate_arima_model_st fc h1 X1 ord) = fst (evaluate_arima_model_st fc h2 X2 ord)
       \<and> predictions_of (walk_forward_st fc (snd (evaluate_arima_model_st fc h1 X1 ord)) X1 ord)
           = predictions_of (walk_forward_st fc h1 X1 ord)
       \<and> fst (evaluate_arima_model_st fc (snd (evaluate_arima_model_st fc h1 X1 ord)) X1 ord)
           = fst (evaluate_arima_model_st fc h1 X1 ord)"
proof -
  have f: "fst (evaluate_arima_model_st fc h X ord) = evaluate_arima_model fc (array_read h X) ord"
    if "valid_array h X" for h X
    using evaluate_arima_model_st_refines[OF that, of fc ord] by force
  from evaluate_arima_model_st_refines[OF assms(1), of fc ord] obtain e where
    e: "snd (evaluate_arima_model_st fc h1 X1 ord) = h1 @ e" by force
  have v': "valid_array (h1 @ e) X1" using assms(1) by (rule valid_array_extend)
  have r': "array_read (h1 @ e) X1 = array_read h1 X1"
    using assms(1) by (simp add: array_read_extend valid_array_def)
  have c1: "predictions_of (walk_forward_st fc h1 X1 ord) = predictions_of (walk_forward_st fc h2 X2 ord)"
    by (simp add: predictions_of_refines[OF assms(1)] predictions_of_refines[OF assms(2)] assms(3))
  have c2: "fst (evaluate_arima_model_st fc h1 X1 ord) = fst (evaluate_arima_model_st fc h2 X2 ord)"
    by (simp add: f[OF assms(1)] f[OF assms(2)] assms(3))
  have c3: "predictions_of (walk_forward_st fc (snd (evaluate_arima_model_st fc h1 X1 ord)) X1 ord)
           = predictions_of (walk_forward_st fc h1 X1 ord)"
    by (simp add: e predictions_of_refines[OF v'] predictions_of_refines[OF assms(1)] r')
  have c4: "fst (evaluate_arima_model_st fc (snd (evaluate_arima_model_st fc h1 X1 ord)) X1 ord)
           = fst (evaluate_arima_model_st fc h1 X1 ord)"
    by (simp add: e f[OF v'] f[OF assms(1)] r')
  from c1 c2 c3 c4 show ?thesis by blast
qed

lemma naive_walk_forward:
  "walk_forward naive [1, 2, 3, 4, 5, 6] (0, 0, 2) = Inr ([1, 2, 3, 4, 5, 6], [5, 6, 7])"
  by (simp add: walk_forward_def split_series_def Let_def train_size_6 naive_def upt_rec)

theorem evaluator_deterministic_witness:
  "predictions_of (walk_forward_st naive one_array whole (0, 0, 2)) = Inr [5, 6, 7]
   \<and> predictions_of (walk_forward_st naive two_arrays middle (0, 0, 2)) = Inr [5, 6, 7]
   \<and> fst (evaluate_arima_model_st naive one_array whole (0, 0, 2)) = Inr (Finite 1)
   \<and> fst (evaluate_arima_model_st naive two_arrays middle (0, 0, 2)) = Inr (Finite 1)
   \<and> fst (evaluate_arima_model_st naive
            (snd (evaluate_arima_model_st naive one_array whole (0, 0, 2))) whole (0, 0, 2))
       = Inr (Finite 1)"
proof -
  have v1: "valid_array one_array whole"
    by (simp add: valid_array_def one_array_def whole_def)
  have v2: "valid_array two_arrays middle"
    by (simp add: valid_array_def two_arrays_def middle_def)
  have r1: "array_read one_array whole = [1, 2, 3, 4, 5, 6]"
    by (simp add: array_read_def one_array_def whole_def array_len_def)
  have r2: "array_read two_arrays middle = [1, 2, 3, 4, 5, 6]"
    by (simp add: array_read_def two_arrays_def middle_def array_len_def)
  have p: "predictions_of (walk_forward_st naive two_arrays middle (0, 0, 2)) = Inr [5, 6, 7]"
    by (simp add: predictions_of_refines[OF v2] r2 naive_walk_forward)
  obtain ext where
    "evaluate_arima_model_st naive two_arrays middle (0, 0, 2) =
       (evaluate_arima_model naive (array_read two_arrays middle) (0, 0, 2), two_arrays @ ext)"
    using evaluate_arima_model_st_refines[OF v2] by blast
  then have e: "fst (evaluate_arima_model_st naive two_arrays middle (0, 0, 2)) = Inr (Finite 1)"
    by (simp add: r2 naive_eval small_threshold)
  from evaluator_deterministic[OF v1 v2, of naive "(0, 0, 2)"] r1 r2 p e
  show ?thesis by simp
qed

section \<open>The timing sweep\<close>

lemma sweep_loop_ok:
  assumes "\<forall>n \<in> set ns. fit n = None" and "ticks s = 2 * k"
  shows "sweep_loop clock fit ns s =
     Inr \<lparr>ticks = 2 * (k + length ns),
          results = results s @ map (\<lambda>i. PyFloat (elapsed_at clock (k + i))) [0..<length ns],
          shown = shown s @ map (\<lambda>i. PyTuple [PyInt (ns ! i), PyFloat (elapsed_at clock (k + i))])
                    [0..<length ns]\<rparr>"
  using assms
proof (induction ns arbitrary: s k)
  case Nil
  then show ?case by simp
next
  case (Cons n ns)
  let ?s' = "\<lparr>ticks = ticks s + 2,
               results = results s @ [PyFloat (clock (ticks s + 1) - clock (ticks s))],
               shown = shown s @ [PyTuple [PyInt n, PyFloat (clock (ticks s + 1) - clock (ticks s))]]\<rparr>"
  have fits: "\<forall>n \<in> set ns. fit n = None" and fit: "fit n = None" using Cons.prems(1) by simp_all
  have t: "ticks ?s' = 2 * Suc k" using Cons.prems(2) by simp
  have step: "sweep_loop clock fit (n # ns) s = sweep_loop clock fit ns ?s'"
    using fit by (simp add: Let_def)
  have el: "clock (Suc (ticks s)) - clock (ticks s) = elapsed_at clock k"
    using Cons.prems(2) by (simp add: elapsed_at_def)
  show ?case
    unfolding step Cons.IH[OF fits t]
    by (simp add: el map_upt_Suc del: upt_Suc)
qed

lemma sweep_loop_inv:
  assumes "sweep_loop clock fit ns s = Inr s'" and "ticks s = 2 * k"
  shows "\<forall>n \<in> set ns. fit n = None"
  using assms
proof (induction ns arbitrary: s k)
  case Nil
  show ?case by simp
next
  case (Cons n ns)
  from Cons.prems(1) have fit: "fit n = None" by (cases "fit n") (simp_all add: Let_def)
  let ?s' = "\<lparr>ticks = ticks s + 2,
               results = results s @ [PyFloat (clock (ticks s + 1) - clock (ticks s))],
               shown = shown s @ [PyTuple [PyInt n, PyFloat (clock (ticks s + 1) - clock (ticks s))]]\<rparr>"
  have "sweep_loop clock fit ns ?s' = Inr s'" using Cons.prems(1) fit by (simp add: Let_def)
  moreover have "ticks ?s' = 2 * Suc k" using Cons.prems(2) by simp
  ultimately have "\<forall>n \<in> set ns. fit n = None" by (rule Cons.IH)
  with fit show ?case by simp
qed

lemma thread_sweep_ok:
  assumes "\<forall>n \<in> set ns. fit n = None"
  shows "thread_sweep clock fit ns =
     Inr \<lparr>ticks = 2 * length ns,
          results = map (\<lambda>i. PyFloat (elapsed_at clock i)) [0..<length ns],
          shown = map (\<lambda>i. PyTuple [PyInt (ns ! i), PyFloat (elapsed_at clock i)]) [0..<length ns]\<rparr>"
  unfolding thread_sweep_def
  using sweep_loop_ok[OF assms, of "\<lparr>ticks = 0, results = [], shown = []\<rparr>" 0 clock] by simp

lemma thread_sweep_fits:
  assumes "thread_sweep clock fit ns = Inr s"
  shows "\<forall>n \<in> set ns. fit n = None"
  using assms unfolding thread_sweep_def by (rule sweep_loop_inv) simp

text \<open>
  C8. When every fit returns, the sweep returns; a completed sweep has recorded exactly
  one sample per requested thread count, in request order, sample \<open>i\<close> being the clock
  reading after the \<open>i\<close>-th fit minus the reading before it. The samples are non-negative
  when no second reading is below its first one. The wall clock can be set back, and
  then a recorded duration is negative.
\<close>

theorem sweep_one_sample_per_count:
  "((\<forall>n \<in> set num_threads. fit n = None) \<longrightarrow> (\<exists>s. thread_sweep clock fit num_threads = Inr s))
   \<and> (thread_sweep clock fit num_threads = Inr s \<longrightarrow>
        length (results s) = length num_threads
      \<and> (\<forall>i < length num_threads. results s ! i = PyFloat (clock (2 * i + 1) - clock (2 * i)))
      \<and> ((\<forall>i < length num_threads. clock (2 * i) \<le> clock (2 * i + 1)) \<longrightarrow>
           (\<forall>i < length num_threads. \<exists>d. results s ! i = PyFloat d \<and> 0 \<le> d)))"
proof -
  have a: "\<exists>s. thread_sweep clock fit num_threads = Inr s" if "\<forall>n \<in> set num_threads. fit n = None"
    using thread_sweep_ok[OF that] by blast
  have b: "length (results s) = length num_threads
      \<and> (\<forall>i < length num_threads. results s ! i = PyFloat (clock (2 * i + 1) - clock (2 * i)))
      \<and> ((\<forall>i < length num_threads. clock (2 * i) \<le> clock (2 * i + 1)) \<longrightarrow>
           (\<forall>i < length num_threads. \<exists>d. results s ! i = PyFloat d \<and> 0 \<le> d))"
    if r: "thread_sweep clock fit num_threads = Inr s"
  proof -
    from thread_sweep_ok[OF thread_sweep_fits[OF r], of clock] r
    have res: "results s = map (\<lambda>i. PyFloat (elapsed_at clock i)) [0..<length num_threads]"
      by auto
    then show ?thesis by (simp add: elapsed_at_def)
  qed
  from a b show ?thesis by blast
qed

theorem sweep_one_sample_per_count_witness:
  "\<exists>s. thread_sweep steady_clock always_fits [1, 2, 3, 4] = Inr s
      \<and> length (results s) = 4
      \<and> results s = [PyFloat 5, PyFloat 5, PyFloat 5, PyFloat 5]"
proof -
  have fits: "\<forall>n \<in> set [1, 2, 3, 4]. always_fits n = None"
    by (simp add: always_fits_def)
  note th = sweep_one_sample_per_count[of "[1, 2, 3, 4]" always_fits steady_clock]
  from th fits obtain s where s: "thread_sweep steady_clock always_fits [1, 2, 3, 4] = Inr s"
    by blast
  have run: "thread_sweep steady_clock always_fits [1, 2, 3, 4] =
     Inr \<lparr>ticks = 8, results = [PyFloat 5, PyFloat 5, PyFloat 5, PyFloat 5],
          shown = [PyTuple [PyInt 1, PyFloat 5], PyTuple [PyInt 2, PyFloat 5],
                   PyTuple [PyInt 3, PyFloat 5], PyTuple [PyInt 4, PyFloat 5]]\<rparr>"
    by (simp add: thread_sweep_def steady_clock_def always_fits_def Let_def)
  with s show ?thesis by auto
qed

text \<open>
  A sweep during which the clock is set back by five seconds between the two readings
  records a negative duration.
\<close>

theorem sweep_duration_negative:
  "thread_sweep clock_set_back always_fits [1] =
     Inr \<lparr>ticks = 2, results = [PyFloat (- 5)], shown = [PyTuple [PyInt 1, PyFloat (- 5)]]\<rparr>"
  by (simp add: thread_sweep_def clock_set_back_def always_fits_def Let_def)

text \<open>
  C9. Each recorded sample is the elapsed duration alone, in request order. The pair of
  thread count and duration is what is printed; the thread count of a stored sample is
  the entry of \<open>num_threads\<close> at the same position. Sweeps over different thread counts
  with the same clock readings store the same list.
\<close>

theorem sweep_stores_durations_only:
  assumes "thread_sweep clock fit num_threads = Inr s"
  shows "results s = map (\<lambda>i. PyFloat (clock (2 * i + 1) - clock (2 * i))) [0..<length num_threads]
       \<and> shown s = map (\<lambda>i. PyTuple [PyInt (num_threads ! i), results s ! i]) [0..<length num_threads]"
proof -
  from thread_sweep_ok[OF thread_sweep_fits[OF assms], of clock] assms
  have "results s = map (\<lambda>i. PyFloat (elapsed_at clock i)) [0..<length num_threads]"
    and "shown s = map (\<lambda>i. PyTuple [PyInt (num_threads ! i), PyFloat (elapsed_at clock i)])
                    [0..<length num_threads]"
    by auto
  then show ?thesis by (simp add: elapsed_at_def)
qed

theorem sweep_stores_durations_only_witness:
  "results \<lparr>ticks = 4, results = [PyFloat 5, PyFloat 5],
          shown = [PyTuple [PyInt 1, PyFloat 5], PyTuple [PyInt 8, PyFloat 5]]\<rparr>
     = [PyFloat 5, PyFloat 5]
   \<and> thread_sweep steady_clock always_fits [1, 8] =
     Inr \<lparr>ticks = 4, results = [PyFloat 5, PyFloat 5],
          shown = [PyTuple [PyInt 1, PyFloat 5], PyTuple [PyInt 8, PyFloat 5]]\<rparr>"
proof -
  have run: "thread_sweep steady_clock always_fits [1, 8] =
     Inr \<lparr>ticks = 4, results = [PyFloat 5, PyFloat 5],
          shown = [PyTuple [PyInt 1, PyFloat 5], PyTuple [PyInt 8, PyFloat 5]]\<rparr>"
    by (simp add: thread_sweep_def steady_clock_def always_fits_def Let_def)
  from sweep_stores_durations_only[OF run] run show ?thesis by simp
qed

text \<open>
  The stored sample for one thread is the number 5, not the pair of 1 and 5, and a sweep
  for four threads under the same clock stores the same list.
\<close>

theorem sweep_sample_is_not_a_pair:
  "thread_sweep steady_clock always_fits [1] =
     Inr \<lparr>ticks = 2, results = [PyFloat 5], shown = [PyTuple [PyInt 1, PyFloat 5]]\<rparr>
   \<and> thread_sweep steady_clock always_fits [4] =
     Inr \<lparr>ticks = 2, results = [PyFloat 5], shown = [PyTuple [PyInt 4, PyFloat 5]]\<rparr>
   \<and> [PyFloat 5] \<noteq> [PyTuple [PyInt 1, PyFloat 5]]"
  by (simp add: thread_sweep_def steady_clock_def always_fits_def Let_def)

section \<open>The documented run\<close>

lemma recorded_grid_search:
  "grid_search (recorded shampoo_run) [0, 1, 2, 4, 6, 8, 10] [0, 1, 2] [0, 1, 2] =
     \<lparr>best_score = Finite 4694.872, best_cfg = Some (4, 2, 1),
      stdout =
        [''ARIMA(0, 0, 0) MSE=52425.268'', ''ARIMA(0, 0, 1) MSE=38145.259'',
         ''ARIMA(0, 0, 2) MSE=23989.598'', ''ARIMA(0, 1, 0) MSE=18003.173'',
         ''ARIMA(0, 1, 1) MSE=9558.166'', ''ARIMA(0, 2, 0) MSE=67339.808'',
         ''ARIMA(0, 2, 1) MSE=18321.891'', ''ARIMA(1, 0, 0) MSE=23112.826'',
         ''ARIMA(1, 1, 0) MSE=7121.367'', ''ARIMA(1, 1, 1) MSE=7003.683'',
         ''ARIMA(1, 2, 0) MSE=18608.016'', ''ARIMA(2, 1, 0) MSE=5689.931'',
         ''ARIMA(2, 1, 1) MSE=7759.704'', ''ARIMA(2, 2, 0) MSE=9860.940'',
         ''ARIMA(4, 1, 0) MSE=6649.594'', ''ARIMA(4, 1, 1) MSE=6796.295'',
         ''ARIMA(4, 2, 0) MSE=7596.329'', ''ARIMA(4, 2, 1) MSE=4694.872'',
         ''ARIMA(6, 1, 0) MSE=6810.082'', ''ARIMA(6, 2, 0) MSE=6261.123'',
         ''ARIMA(8, 1, 0) MSE=6579.580'']\<rparr>"
  by (simp add: grid_search_def try_order_def recorded_def shampoo_run_def eval_line_def
      str_int_def decimal.simps digit_def nearest_even_def Let_def)

text \<open>
  Given the errors printed in the documented run, the driver's loops over the documented
  grid print the documented lines in the documented order, and the summary line names
  \<open>(4, 2, 1)\<close> with error 4694.872.
\<close>

theorem recorded_run_summary:
  "best_cfg (grid_search (recorded shampoo_run) [0, 1, 2, 4, 6, 8, 10] [0, 1, 2] [0, 1, 2])
     = Some (4, 2, 1)
   \<and> stdout (grid_search (recorded shampoo_run) [0, 1, 2, 4, 6, 8, 10] [0, 1, 2] [0, 1, 2])
       @ [summary_line (grid_search (recorded shampoo_run) [0, 1, 2, 4, 6, 8, 10] [0, 1, 2] [0, 1, 2])]
     = [''ARIMA(0, 0, 0) MSE=52425.268'', ''ARIMA(0, 0, 1) MSE=38145.259'',
        ''ARIMA(0, 0, 2) MSE=23989.598'', ''ARIMA(0, 1, 0) MSE=18003.173'',
        ''ARIMA(0, 1, 1) MSE=9558.166'', ''ARIMA(0, 2, 0) MSE=67339.808'',
        ''ARIMA(0, 2, 1) MSE=18321.891'', ''ARIMA(1, 0, 0) MSE=23112.826'',
        ''ARIMA(1, 1, 0) MSE=7121.367'', ''ARIMA(1, 1, 1) MSE=7003.683'',
        ''ARIMA(1, 2, 0) MSE=18608.016'', ''ARIMA(2, 1, 0) MSE=5689.931'',
        ''ARIMA(2, 1, 1) MSE=7759.704'', ''ARIMA(2, 2, 0) MSE=9860.940'',
        ''ARIMA(4, 1, 0) MSE=6649.594'', ''ARIMA(4, 1, 1) MSE=6796.295'',
        ''ARIMA(4, 2, 0) MSE=7596.329'', ''ARIMA(4, 2, 1) MSE=4694.872'',
        ''ARIMA(6, 1, 0) MSE=6810.082'', ''ARIMA(6, 2, 0) MSE=6261.123'',
        ''ARIMA(8, 1, 0) MSE=6579.580'', ''Best ARIMA(4, 2, 1) MSE=4694.872'']"
  by (simp add: recorded_grid_search summary_line_def str_int_def decimal.simps digit_def
      nearest_even_def Let_def)

end
